theory Spec2Isabelle
  imports Main "HOL-Library.Word" "HOL-Library.Signed_Division" "HOL-Library.AList"
    "HOL-Library.Monad_Syntax"
begin

section \<open>Errors\<close>

text \<open>
  Every panic and every error return of the source is a value of this type; a function
  that can panic or fail returns \<open>error + 'a\<close>, with \<open>Inl\<close> for the failure.
\<close>

datatype error =
    DivideByZero \<comment> \<open>runtime panic: integer divide by zero\<close>
  | MapStoreError string \<comment> \<open>the store's error type, with its message\<close>
  | DecodeError \<comment> \<open>the JSON decoder returned an error\<close>
  | MarshalError \<comment> \<open>\<^verbatim>\<open>json.Marshal\<close> returned an error\<close>
  | TypeAssertionPanic \<comment> \<open>\<^verbatim>\<open>x.(T)\<close> on a value that is not a \<^verbatim>\<open>T\<close>\<close>
  | ReflectPanic \<comment> \<open>\<^verbatim>\<open>reflect.Value.Set\<close> with a value that is not assignable\<close>

section \<open>Time and durations\<close>

text \<open>
  A \<^verbatim>\<open>time.Time\<close> is modelled by the instant it denotes, in nanoseconds since the Unix
  epoch, read in UTC: every time the package creates comes from \<^verbatim>\<open>time.Now().UTC()\<close>,
  which carries no monotonic reading. A \<^verbatim>\<open>time.Duration\<close> is an \<^verbatim>\<open>int64\<close> of
  nanoseconds: a 64-bit word read with \<^term>\<open>sint\<close>. The clock is an input: each
  operation that calls \<^verbatim>\<open>time.Now()\<close> takes the reading as its argument \<open>now\<close>,
  one reading for the whole call.
\<close>

type_synonym time = int
type_synonym duration = "64 word"
type_synonym uint64 = "64 word"

definition minDuration :: duration where
  "minDuration = word_of_int (- (2 ^ 63))"

definition maxDuration :: duration where
  "maxDuration = word_of_int (2 ^ 63 - 1)"

text \<open>\<^verbatim>\<open>t.Sub(u)\<close>: the difference, saturated to the range of a Duration.\<close>

definition Time_Sub :: "time \<Rightarrow> time \<Rightarrow> duration" where
  "Time_Sub t u =
     (let d = t - u in
      if d < - (2 ^ 63) then minDuration
      else if 2 ^ 63 - 1 < d then maxDuration
      else word_of_int d)"

text \<open>\<^verbatim>\<open>t.Add(d)\<close>.\<close>

definition Time_Add :: "time \<Rightarrow> duration \<Rightarrow> time" where
  "Time_Add t d = t + sint d"

text \<open>The zero \<^verbatim>\<open>time.Time\<close>: 1 January of year 1, 00:00:00 UTC.\<close>

definition zeroTime :: time where
  "zeroTime = - 62135596800 * 1000000000"

section \<open>Decimal numbers (package strconv)\<close>

text \<open>The table of digits that the formatting functions index.\<close>

definition digit_char :: "nat \<Rightarrow> char" where
  "digit_char d = ''0123456789'' ! d"

definition is_digit :: "char \<Rightarrow> bool" where
  "is_digit c = (48 \<le> (of_char c :: nat) \<and> (of_char c :: nat) \<le> 57)"

definition digit_val :: "char \<Rightarrow> nat" where
  "digit_val c = of_char c - 48"

text \<open>The decimal digits of a number, most significant first, without leading zeros.\<close>

function digits10 :: "nat \<Rightarrow> string" where
  "digits10 n =
     (if n < 10 then [digit_char n] else digits10 (n div 10) @ [digit_char (n mod 10)])"
  by pat_completeness auto
termination
  by (relation "measure (\<lambda>n. n)") auto

declare digits10.simps [simp del]

text \<open>The value of a string of decimal digits.\<close>

definition decimal_val :: "string \<Rightarrow> nat" where
  "decimal_val s = foldl (\<lambda>a c. 10 * a + digit_val c) 0 s"

text \<open>\<^verbatim>\<open>strconv.FormatUint(u, 10)\<close> and \<^verbatim>\<open>strconv.FormatInt(i, 10)\<close>.\<close>

definition FormatUint :: "uint64 \<Rightarrow> string" where
  "FormatUint u = digits10 (unat u)"

definition FormatInt :: "64 word \<Rightarrow> string" where
  "FormatInt i =
     (if i <s 0 then CHR ''-'' # digits10 (nat (- sint i)) else digits10 (nat (sint i)))"

text \<open>
  \<^verbatim>\<open>strconv.ParseUint(s, 10, 64)\<close> and \<^verbatim>\<open>strconv.ParseInt(s, 10, 64)\<close>; \<open>None\<close> is
  a syntax or range error.
\<close>

definition ParseUint :: "string \<Rightarrow> uint64 option" where
  "ParseUint s =
     (if s = [] \<or> \<not> list_all is_digit s \<or> 2 ^ 64 \<le> decimal_val s then None
      else Some (of_nat (decimal_val s)))"

definition ParseInt :: "string \<Rightarrow> 64 word option" where
  "ParseInt s =
     (case s of
        [] \<Rightarrow> None
      | c # cs \<Rightarrow>
          let neg = (c = CHR ''-'');
              body = (if c = CHR ''+'' \<or> c = CHR ''-'' then cs else s)
          in if body = [] \<or> \<not> list_all is_digit body then None
             else let un = decimal_val body
                  in if \<not> neg \<and> 2 ^ 63 \<le> un then None
                     else if neg \<and> 2 ^ 63 < un then None
                     else Some (if neg then - of_nat un else of_nat un))"

section \<open>Calendar and RFC 3339 timestamps (package time)\<close>

text \<open>
  The proleptic Gregorian calendar as the time package computes it. Days are counted
  from 1 January of year 1, so that day 0 starts a 400-year cycle; the Unix epoch is day
  719162.
\<close>

definition unixEpochDays :: int where
  "unixEpochDays = 719162"

definition isLeap :: "int \<Rightarrow> bool" where
  "isLeap year = (year mod 4 = 0 \<and> (year mod 100 \<noteq> 0 \<or> year mod 400 = 0))"

text \<open>\<open>daysBefore ! m\<close> is the number of days of a non-leap year before month \<open>m + 1\<close>.\<close>

definition daysBefore :: "int list" where
  "daysBefore = [0, 31, 59, 90, 120, 151, 181, 212, 243, 273, 304, 334, 365]"

definition daysIn :: "int \<Rightarrow> int \<Rightarrow> int" where
  "daysIn month year =
     (if month = 2 \<and> isLeap year then 29
      else daysBefore ! nat month - daysBefore ! nat (month - 1))"

text \<open>
  The year of a day number and the day within that year (from 0): 400-year, 100-year,
  4-year and 1-year cycles are cut off in turn; the last 100-year cycle of a 400-year
  cycle and the last year of a 4-year cycle are one day longer.
\<close>

definition absYear :: "int \<Rightarrow> int \<times> int" where
  "absYear days =
     (let n400 = days div 146097;
          d1 = days - 146097 * n400;
          n = d1 div 36524;
          n100 = n - n div 4;
          d2 = d1 - 36524 * n100;
          n4 = d2 div 1461;
          d3 = d2 - 1461 * n4;
          n' = d3 div 365;
          n1 = n' - n' div 4;
          yday = d3 - 365 * n1
      in (400 * n400 + 100 * n100 + 4 * n4 + n1 + 1, yday))"

text \<open>Month and day of the month of a day of a non-leap year (from 0).\<close>

definition monthDay0 :: "int \<Rightarrow> int \<times> int" where
  "monthDay0 day =
     (let month = day div 31;
          end = daysBefore ! nat (month + 1)
      in if day \<ge> end then (month + 2, day - end + 1)
         else (month + 1, day - daysBefore ! nat month + 1))"

definition monthDay :: "int \<Rightarrow> int \<Rightarrow> int \<times> int" where
  "monthDay year yday =
     (if isLeap year \<and> yday = 59 then (2, 29)
      else monthDay0 (if isLeap year \<and> yday > 59 then yday - 1 else yday))"

definition daysSinceEpoch :: "int \<Rightarrow> int" where
  "daysSinceEpoch year =
     (let y = year - 1;
          n400 = y div 400;
          y1 = y - 400 * n400;
          n100 = y1 div 100;
          y2 = y1 - 100 * n100;
          n4 = y2 div 4;
          y3 = y2 - 4 * n4
      in 146097 * n400 + 36524 * n100 + 1461 * n4 + 365 * y3)"

text \<open>The day number of a date whose month and day are in range.\<close>

definition dateToDays :: "int \<Rightarrow> int \<Rightarrow> int \<Rightarrow> int" where
  "dateToDays year month day =
     daysSinceEpoch year + daysBefore ! nat (month - 1)
       + (if isLeap year \<and> month \<ge> 3 then 1 else 0) + (day - 1)"

text \<open>\<^verbatim>\<open>t.Year()\<close>.\<close>

definition Time_Year :: "time \<Rightarrow> int" where
  "Time_Year t = fst (absYear (t div 1000000000 div 86400 + unixEpochDays))"

text \<open>\<^verbatim>\<open>appendInt\<close>: a number in decimal, padded with zeros to a width.\<close>

definition appendInt :: "nat \<Rightarrow> nat \<Rightarrow> string" where
  "appendInt x width = replicate (width - length (digits10 x)) CHR ''0'' @ digits10 x"

text \<open>
  The fractional second of the layout \<^verbatim>\<open>.999999999\<close>: nothing for zero, else a dot and
  nine digits with the trailing zeros removed.
\<close>

definition formatNano :: "nat \<Rightarrow> string" where
  "formatNano nanosec =
     (if nanosec = 0 then []
      else CHR ''.'' # rev (dropWhile (\<lambda>c. c = CHR ''0'') (rev (appendInt nanosec 9))))"

text \<open>\<^verbatim>\<open>t.Format(time.RFC3339Nano)\<close> of a time in UTC.\<close>

definition formatRFC3339Nano :: "time \<Rightarrow> string" where
  "formatRFC3339Nano t =
     (let sec = t div 1000000000;
          nsec = t mod 1000000000;
          days = sec div 86400 + unixEpochDays;
          rem = sec mod 86400;
          (year, yday) = absYear days;
          (month, day) = monthDay year yday
      in appendInt (nat year) 4 @ ''-'' @ appendInt (nat month) 2 @ ''-''
           @ appendInt (nat day) 2 @ ''T'' @ appendInt (nat (rem div 3600)) 2 @ '':''
           @ appendInt (nat (rem mod 3600 div 60)) 2 @ '':''
           @ appendInt (nat (rem mod 60)) 2 @ formatNano (nat nsec) @ ''Z'')"

text \<open>
  \<^verbatim>\<open>Time.MarshalJSON\<close>: the text between the quotes, or an error when the year is
  outside 0..9999.
\<close>

definition Time_MarshalJSON :: "time \<Rightarrow> error + string" where
  "Time_MarshalJSON t =
     (if Time_Year t < 0 \<or> 10000 \<le> Time_Year t then Inl MarshalError
      else Inr (formatRFC3339Nano t))"

text \<open>
  Parsing follows the RFC 3339 grammar, as \<^verbatim>\<open>parseRFC3339\<close> of the time package does:
  fixed-width fields with range checks, an optional fraction, then \<^verbatim>\<open>Z\<close> or a numeric
  zone, which is resolved into the instant.
\<close>

definition parseUint :: "string \<Rightarrow> int \<Rightarrow> int \<Rightarrow> int option" where
  "parseUint s lo hi =
     (if list_all is_digit s \<and> lo \<le> int (decimal_val s) \<and> int (decimal_val s) \<le> hi
      then Some (int (decimal_val s)) else None)"

text \<open>The nanoseconds of the digits after the dot: at most nine digits count.\<close>

definition parseNanoseconds :: "string \<Rightarrow> int" where
  "parseNanoseconds ds = int (decimal_val (take 9 ds)) * 10 ^ (9 - length (take 9 ds))"

definition parseFraction :: "string \<Rightarrow> int \<times> string" where
  "parseFraction s =
     (case s of
        c1 # c2 # cs \<Rightarrow>
          if c1 = CHR ''.'' \<and> is_digit c2
          then (parseNanoseconds (takeWhile is_digit (c2 # cs)), dropWhile is_digit (c2 # cs))
          else (0, s)
      | _ \<Rightarrow> (0, s))"

text \<open>The zone's offset from UTC in seconds.\<close>

definition parseZone :: "string \<Rightarrow> int option" where
  "parseZone z =
     (if z = ''Z'' then Some 0
      else if length z \<noteq> 6 then None
      else do {
        hr \<leftarrow> parseUint (take 2 (drop 1 z)) 0 23;
        mm \<leftarrow> parseUint (take 2 (drop 4 z)) 0 59;
        if (z ! 0 = CHR ''-'' \<or> z ! 0 = CHR ''+'') \<and> z ! 3 = CHR '':''
        then Some ((if z ! 0 = CHR ''-'' then - 1 else 1) * ((hr * 60 + mm) * 60))
        else None
      })"

definition parseRFC3339 :: "string \<Rightarrow> time option" where
  "parseRFC3339 s =
     (if length s < 19 then None
      else do {
        year \<leftarrow> parseUint (take 4 s) 0 9999;
        month \<leftarrow> parseUint (take 2 (drop 5 s)) 1 12;
        day \<leftarrow> parseUint (take 2 (drop 8 s)) 1 (daysIn month year);
        hour \<leftarrow> parseUint (take 2 (drop 11 s)) 0 23;
        minute \<leftarrow> parseUint (take 2 (drop 14 s)) 0 59;
        sec \<leftarrow> parseUint (take 2 (drop 17 s)) 0 59;
        if \<not> (s ! 4 = CHR ''-'' \<and> s ! 7 = CHR ''-'' \<and> s ! 10 = CHR ''T''
              \<and> s ! 13 = CHR '':'' \<and> s ! 16 = CHR '':'')
        then None
        else do {
          offset \<leftarrow> parseZone (snd (parseFraction (drop 19 s)));
          Some (((dateToDays year month day - unixEpochDays) * 86400
                  + hour * 3600 + minute * 60 + sec - offset) * 1000000000
                + fst (parseFraction (drop 19 s)))
        }
      })"

section \<open>JSON documents (package encoding/json)\<close>

text \<open>
  A stored payload (\<^verbatim>\<open>[]byte\<close>) is modelled by the JSON document its text denotes:
  \<open>None\<close> for bytes that do not start with a JSON value. A number keeps its literal
  text, which is what the decoder hands to \<^verbatim>\<open>strconv\<close>; an object keeps its members
  in order.
\<close>

datatype json =
    JNull
  | JBool bool
  | JNumber string
  | JString string
  | JArray "json list"
  | JObject "(string \<times> json) list"

type_synonym bytes = "json option"

text \<open>Object keys match field names without regard to (ASCII) letter case.\<close>

definition to_lower :: "char \<Rightarrow> char" where
  "to_lower c =
     (if 65 \<le> (of_char c :: nat) \<and> (of_char c :: nat) \<le> 90
      then char_of ((of_char c :: nat) + 32) else c)"

section \<open>Quota and access counter (throttle.go)\<close>

record Quota =
  Limit :: uint64
  Within :: duration

record accessCount =
  Count :: uint64
  Start :: time
  Duration :: duration

text \<open>\<^verbatim>\<open>time.Now().UTC().Sub(r.Start) < r.Duration\<close>, a comparison of two \<^verbatim>\<open>int64\<close>.\<close>

definition IsFresh :: "time \<Rightarrow> accessCount \<Rightarrow> bool" where
  "IsFresh now r = (Time_Sub now (Start r) <s Duration r)"

text \<open>\<^verbatim>\<open>Increment\<close> has a pointer receiver: the result is the receiver after the call.\<close>

definition Increment :: "time \<Rightarrow> accessCount \<Rightarrow> accessCount" where
  "Increment now r =
     (if IsFresh now r then r\<lparr>Count := Count r + 1\<rparr>
      else r\<lparr>Count := 1, Start := now\<rparr>)"

text \<open>
  \<^verbatim>\<open>GetCount\<close> has a pointer receiver too: the result is the returned count together
  with the receiver after the call.
\<close>

definition GetCount :: "time \<Rightarrow> accessCount \<Rightarrow> uint64 \<times> accessCount" where
  "GetCount now r = (if IsFresh now r then (Count r, r) else (0, r))"

definition newAccessCount :: "time \<Rightarrow> duration \<Rightarrow> accessCount" where
  "newAccessCount now duration = \<lparr>Count = 0, Start = now, Duration = duration\<rparr>"

text \<open>The zero value \<^verbatim>\<open>accessCount{}\<close>.\<close>

definition zero_accessCount :: accessCount where
  "zero_accessCount = \<lparr>Count = 0, Start = zeroTime, Duration = 0\<rparr>"

text \<open>
  \<^verbatim>\<open>q.KeyId()\<close>: the quotient of two \<^verbatim>\<open>int64\<close> truncates towards zero and wraps; a
  zero limit panics.
\<close>

definition int64_div :: "64 word \<Rightarrow> 64 word \<Rightarrow> 64 word" where
  "int64_div a b = word_of_int (sint a sdiv sint b)"

definition KeyId :: "Quota \<Rightarrow> error + string" where
  "KeyId q =
     (if Limit q = 0 then Inl DivideByZero
      else Inr (FormatInt (int64_div (Within q) (Limit q))))"

text \<open>\<^verbatim>\<open>strings.Join\<close> and \<^verbatim>\<open>makeKey\<close>.\<close>

fun Join :: "string list \<Rightarrow> string \<Rightarrow> string" where
  "Join [] sep = []"
| "Join [a] sep = a"
| "Join (a # b # bs) sep = a @ sep @ Join (b # bs) sep"

definition makeKey :: "string list \<Rightarrow> string" where
  "makeKey parts = Join parts ''_''"

text \<open>
  The store key a policy uses for an identity (first line of the handler that
  \<^verbatim>\<open>Policy\<close> returns): \<^verbatim>\<open>makeKey(o.KeyPrefix, quota.KeyId(), o.Identify(req))\<close>.
\<close>

definition Policy_key :: "string \<Rightarrow> Quota \<Rightarrow> string \<Rightarrow> error + string" where
  "Policy_key KeyPrefix quota identity =
     (case KeyId quota of
        Inl e \<Rightarrow> Inl e
      | Inr k \<Rightarrow> Inr (makeKey [KeyPrefix, k, identity]))"

subsection \<open>The counter as JSON\<close>

text \<open>
  \<^verbatim>\<open>json.Marshal(a)\<close> for an \<^verbatim>\<open>accessCount\<close>: the three tagged fields in the order
  of the struct. It fails only when the time cannot be written.
\<close>

definition json_Marshal :: "accessCount \<Rightarrow> error + bytes" where
  "json_Marshal a =
     (case Time_MarshalJSON (Start a) of
        Inl e \<Rightarrow> Inl e
      | Inr s \<Rightarrow>
          Inr (Some (JObject
            [(''count'', JNumber (FormatUint (Count a))),
             (''start'', JString s),
             (''duration'', JNumber (FormatInt (Duration a)))])))"

text \<open>
  Decoding one member of an object into the struct: a key that matches no field is
  skipped, \<^verbatim>\<open>null\<close> leaves the field as it is, a value of the wrong kind or out of
  range is an error.
\<close>

definition decode_field :: "string \<Rightarrow> json \<Rightarrow> accessCount \<Rightarrow> accessCount option" where
  "decode_field k v a =
     (if map to_lower k = ''count'' then
        (case v of
           JNull \<Rightarrow> Some a
         | JNumber lit \<Rightarrow> map_option (\<lambda>n. a\<lparr>Count := n\<rparr>) (ParseUint lit)
         | _ \<Rightarrow> None)
      else if map to_lower k = ''start'' then
        (case v of
           JNull \<Rightarrow> Some a
         | JString s \<Rightarrow> map_option (\<lambda>t. a\<lparr>Start := t\<rparr>) (parseRFC3339 s)
         | _ \<Rightarrow> None)
      else if map to_lower k = ''duration'' then
        (case v of
           JNull \<Rightarrow> Some a
         | JNumber lit \<Rightarrow> map_option (\<lambda>d. a\<lparr>Duration := d\<rparr>) (ParseInt lit)
         | _ \<Rightarrow> None)
      else Some a)"

fun decode_fields :: "(string \<times> json) list \<Rightarrow> accessCount \<Rightarrow> accessCount option" where
  "decode_fields [] a = Some a"
| "decode_fields ((k, v) # kvs) a =
     (case decode_field k v a of None \<Rightarrow> None | Some a' \<Rightarrow> decode_fields kvs a')"

text \<open>\<^verbatim>\<open>json.NewDecoder(buf).Decode(a)\<close> for a pointer \<open>a\<close> to an \<^verbatim>\<open>accessCount\<close>.\<close>

definition json_Decode :: "bytes \<Rightarrow> accessCount \<Rightarrow> error + accessCount" where
  "json_Decode b a =
     (case b of
        None \<Rightarrow> Inl DecodeError
      | Some JNull \<Rightarrow> Inr a
      | Some (JObject kvs) \<Rightarrow>
          (case decode_fields kvs a of None \<Rightarrow> Inl DecodeError | Some a' \<Rightarrow> Inr a')
      | Some _ \<Rightarrow> Inl DecodeError)"

text \<open>\<^verbatim>\<open>accessCountFromBytes\<close>: decode into a zero value, panic on an error.\<close>

definition accessCountFromBytes :: "bytes \<Rightarrow> error + accessCount" where
  "accessCountFromBytes accessCountBytes = json_Decode accessCountBytes zero_accessCount"

section \<open>The map store\<close>

text \<open>
  \<^verbatim>\<open>MapStore\<close>: the map is an association list with one pair per key, the binding is
  the value given to \<^verbatim>\<open>NewMapStore\<close> (throttle.go passes \<^verbatim>\<open>accessCount{}\<close>). The locks
  are left out: the model is sequential.
\<close>

record MapStore =
  data :: "(string \<times> bytes) list"
  binding :: accessCount

definition NewMapStore :: "accessCount \<Rightarrow> MapStore" where
  "NewMapStore b = \<lparr>data = [], binding = b\<rparr>"

definition MapStore_Set :: "MapStore \<Rightarrow> string \<Rightarrow> bytes \<Rightarrow> error + MapStore" where
  "MapStore_Set s key val = Inr (s\<lparr>data := AList.update key val (data s)\<rparr>)"

definition MapStore_Delete :: "MapStore \<Rightarrow> string \<Rightarrow> MapStore" where
  "MapStore_Delete s key = s\<lparr>data := AList.delete key (data s)\<rparr>"

definition MapStore_Get :: "MapStore \<Rightarrow> string \<Rightarrow> error + bytes" where
  "MapStore_Get s key =
     (case map_of (data s) key of
        None \<Rightarrow> Inl (MapStoreError (''Key '' @ key @ '' does not exist''))
      | Some val \<Rightarrow> Inr val)"

text \<open>
  \<^verbatim>\<open>Read\<close> looks every key of the decoded object up among the fields of the binding
  with \<^verbatim>\<open>reflect.ValueOf(s.binding).FieldByName(k)\<close>: the field is valid when the key is
  the name of a field of the struct, and it can be set only when the value is
  addressable, which a struct held by value in an interface is not. A call of
  \<^verbatim>\<open>field.Set\<close> would panic, since a value decoded into \<^verbatim>\<open>interface{}\<close> has none of
  the field types.
\<close>

definition field_names :: "string list" where
  "field_names = [''Count'', ''Start'', ''Duration'']"

definition field_IsValid :: "string \<Rightarrow> bool" where
  "field_IsValid k = (k \<in> set field_names)"

definition field_CanSet :: "string \<Rightarrow> bool" where
  "field_CanSet k = False"

fun Read_fields :: "(string \<times> json) list \<Rightarrow> accessCount \<Rightarrow> error + accessCount" where
  "Read_fields [] b = Inr b"
| "Read_fields ((k, v) # kvs) b =
     (if field_IsValid k \<and> field_CanSet k then Inl ReflectPanic else Read_fields kvs b)"

definition MapStore_Read :: "MapStore \<Rightarrow> string \<Rightarrow> error + accessCount" where
  "MapStore_Read s key =
     (case MapStore_Get s key of
        Inl err \<Rightarrow> Inl err
      | Inr byteArray \<Rightarrow>
          (case byteArray of
             None \<Rightarrow> Inl DecodeError
           | Some (JObject kvs) \<Rightarrow> Read_fields kvs (binding s)
           | Some _ \<Rightarrow> Inl TypeAssertionPanic))"

text \<open>\<^verbatim>\<open>Clean\<close>: the loop over the keys the map has when the sweep starts.\<close>

fun Clean_loop :: "time \<Rightarrow> string list \<Rightarrow> MapStore \<Rightarrow> error + MapStore" where
  "Clean_loop now [] s = Inr s"
| "Clean_loop now (key # keys) s =
     (case MapStore_Read s key of
        Inl err \<Rightarrow> Inl err
      | Inr val \<Rightarrow>
          Clean_loop now keys (if \<not> IsFresh now val then MapStore_Delete s key else s))"

definition MapStore_Clean :: "time \<Rightarrow> MapStore \<Rightarrow> error + MapStore" where
  "MapStore_Clean now s = Clean_loop now (map fst (data s)) s"

section \<open>The controller\<close>

text \<open>
  A controller holds its quota and its store; an operation that writes to the store
  returns the controller with the store updated. The mutex is left out. The argument
  \<^verbatim>\<open>id\<close> of the source is written \<open>key\<close>.
\<close>

record controller =
  quota :: Quota
  store :: MapStore

definition newController :: "Quota \<Rightarrow> MapStore \<Rightarrow> controller" where
  "newController q s = \<lparr>quota = q, store = s\<rparr>"

definition GetAccessCount :: "controller \<Rightarrow> time \<Rightarrow> string \<Rightarrow> error + accessCount" where
  "GetAccessCount c now key =
     (case MapStore_Get (store c) key of
        Inr accessCountBytes \<Rightarrow> accessCountFromBytes accessCountBytes
      | Inl err \<Rightarrow> Inr (newAccessCount now (Within (quota c))))"

definition SetAccessCount :: "controller \<Rightarrow> string \<Rightarrow> accessCount \<Rightarrow> error + controller" where
  "SetAccessCount c key a =
     (case json_Marshal a of
        Inl err \<Rightarrow> Inl err
      | Inr marshalled \<Rightarrow>
          (case MapStore_Set (store c) key marshalled of
             Inl err \<Rightarrow> Inl err
           | Inr s \<Rightarrow> Inr (c\<lparr>store := s\<rparr>)))"

definition RegisterAccess :: "controller \<Rightarrow> time \<Rightarrow> string \<Rightarrow> error + controller" where
  "RegisterAccess c now key =
     (case GetAccessCount c now key of
        Inl err \<Rightarrow> Inl err
      | Inr counter \<Rightarrow> SetAccessCount c key (Increment now counter))"

definition DeniesAccess :: "controller \<Rightarrow> time \<Rightarrow> string \<Rightarrow> error + bool" where
  "DeniesAccess c now key =
     (case GetAccessCount c now key of
        Inl err \<Rightarrow> Inl err
      | Inr counter \<Rightarrow> Inr (fst (GetCount now counter) \<ge> Limit (quota c)))"

definition RetryAt :: "controller \<Rightarrow> time \<Rightarrow> string \<Rightarrow> error + time" where
  "RetryAt c now key =
     (case GetAccessCount c now key of
        Inl err \<Rightarrow> Inl err
      | Inr counter \<Rightarrow> Inr (Time_Add (Start counter) (Within (quota c))))"

definition RemainingLimit :: "controller \<Rightarrow> time \<Rightarrow> string \<Rightarrow> error + uint64" where
  "RemainingLimit c now key =
     (case GetAccessCount c now key of
        Inl err \<Rightarrow> Inl err
      | Inr counter \<Rightarrow> Inr (Limit (quota c) - fst (GetCount now counter)))"

text \<open>Sequential calls of \<^verbatim>\<open>RegisterAccess\<close> for one identity, one per clock reading.\<close>

fun RegisterAccess_seq :: "controller \<Rightarrow> string \<Rightarrow> time list \<Rightarrow> error + controller" where
  "RegisterAccess_seq c key [] = Inr c"
| "RegisterAccess_seq c key (now # nows) =
     (case RegisterAccess c now key of
        Inl err \<Rightarrow> Inl err
      | Inr c' \<Rightarrow> RegisterAccess_seq c' key nows)"

section \<open>Facts about time arithmetic\<close>

lemma sint_minDuration: "sint minDuration = - (2 ^ 63)"
  by (simp add: minDuration_def)

lemma sint_maxDuration: "sint maxDuration = 2 ^ 63 - 1"
  by (simp add: maxDuration_def)

lemma sint_duration_bounds:
  fixes d :: duration
  shows "- (2 ^ 63) \<le> sint d" and "sint d \<le> 2 ^ 63 - 1"
  using sint_ge [of d] sint_lt [of d] by simp_all

lemma sint_word_of_int_64:
  fixes k :: int
  assumes "- (2 ^ 63) \<le> k" and "k \<le> 2 ^ 63 - 1"
  shows "sint (word_of_int k :: 64 word) = k"
proof -
  have "signed_take_bit 63 k = k"
    by (rule signed_take_bit_int_eq_self) (use assms in simp_all)
  then show ?thesis by (simp add: sint_sbintrunc')
qed

lemma sint_Time_Sub:
  "sint (Time_Sub t u) = max (- (2 ^ 63)) (min (2 ^ 63 - 1) (t - u))"
proof -
  define d where "d = t - u"
  have sub: "Time_Sub t u =
      (if d < - (2 ^ 63) then minDuration
       else if 2 ^ 63 - 1 < d then maxDuration else word_of_int d)"
    by (simp add: Time_Sub_def d_def Let_def)
  consider "d < - (2 ^ 63)" | "2 ^ 63 - 1 < d" | "- (2 ^ 63) \<le> d" "d \<le> 2 ^ 63 - 1"
    by linarith
  then have "sint (Time_Sub t u) = max (- (2 ^ 63)) (min (2 ^ 63 - 1) d)"
  proof cases
    case 1
    then show ?thesis by (simp add: sub sint_minDuration)
  next
    case 2
    then show ?thesis by (simp add: sub sint_maxDuration)
  next
    case 3
    then have "sint (word_of_int d :: 64 word) = d"
      by (rule sint_word_of_int_64)
    with 3 show ?thesis by (simp add: sub)
  qed
  then show ?thesis by (simp add: d_def)
qed

text \<open>
  For a window that is not the least \<^verbatim>\<open>int64\<close>, freshness is the comparison of the
  exact elapsed time with the window: saturation does not change the answer.
\<close>

lemma IsFresh_iff:
  assumes "sint (Duration r) \<noteq> - (2 ^ 63)"
  shows "IsFresh now r \<longleftrightarrow> now - Start r < sint (Duration r)"
proof -
  have lo: "- (2 ^ 63) < sint (Duration r)"
    using assms sint_duration_bounds(1) [of "Duration r"] by linarith
  have hi: "sint (Duration r) \<le> 2 ^ 63 - 1"
    by (rule sint_duration_bounds(2))
  have "IsFresh now r \<longleftrightarrow>
      max (- (2 ^ 63)) (min (2 ^ 63 - 1) (now - Start r)) < sint (Duration r)"
    by (simp add: IsFresh_def word_sless_alt sint_Time_Sub)
  also have "\<dots> \<longleftrightarrow> now - Start r < sint (Duration r)"
    using lo hi by linarith
  finally show ?thesis .
qed

lemma IsFresh_at_Start:
  assumes "0 <s Duration r"
  shows "IsFresh (Start r) r"
proof -
  have "0 < sint (Duration r)"
    using assms by (simp add: word_sless_alt)
  then show ?thesis
    by (simp add: IsFresh_iff)
qed

section \<open>Facts about decimal numbers\<close>

lemma digit_cases:
  "d < (10::nat) \<Longrightarrow>
   d = 0 \<or> d = 1 \<or> d = 2 \<or> d = 3 \<or> d = 4 \<or> d = 5 \<or> d = 6 \<or> d = 7 \<or> d = 8 \<or> d = 9"
  by arith

lemma digit_val_digit_char: "d < 10 \<Longrightarrow> digit_val (digit_char d) = d"
  by (drule digit_cases) (elim disjE, simp_all add: digit_char_def digit_val_def)

lemma is_digit_digit_char: "d < 10 \<Longrightarrow> is_digit (digit_char d)"
  by (drule digit_cases) (elim disjE, simp_all add: digit_char_def is_digit_def)

lemma decimal_val_Nil: "decimal_val [] = 0"
  by (simp add: decimal_val_def)

lemma decimal_val_snoc: "decimal_val (s @ [c]) = 10 * decimal_val s + digit_val c"
  by (simp add: decimal_val_def)

lemma decimal_val_append:
  "decimal_val (a @ b) = decimal_val a * 10 ^ length b + decimal_val b"
proof (induction b rule: rev_induct)
  case Nil
  then show ?case by (simp add: decimal_val_Nil)
next
  case (snoc c b)
  have "decimal_val (a @ b @ [c]) = 10 * decimal_val (a @ b) + digit_val c"
    using decimal_val_snoc [of "a @ b" c] by simp
  with snoc show ?case
    by (simp add: decimal_val_snoc algebra_simps)
qed

lemma decimal_val_digits10: "decimal_val (digits10 n) = n"
proof (induction n rule: digits10.induct)
  case (1 n)
  show ?case
  proof (cases "n < 10")
    case True
    then show ?thesis
      by (simp add: digits10.simps [of n] decimal_val_def digit_val_digit_char)
  next
    case False
    with 1 have "decimal_val (digits10 (n div 10)) = n div 10" by simp
    with False show ?thesis
      by (simp add: digits10.simps [of n] decimal_val_snoc digit_val_digit_char)
  qed
qed

lemma digits10_all_digits: "list_all is_digit (digits10 n)"
proof (induction n rule: digits10.induct)
  case (1 n)
  show ?case
  proof (cases "n < 10")
    case True
    then show ?thesis
      by (simp add: digits10.simps [of n] is_digit_digit_char)
  next
    case False
    with 1 have "list_all is_digit (digits10 (n div 10))" by simp
    with False show ?thesis
      by (simp add: digits10.simps [of n] is_digit_digit_char)
  qed
qed

lemma digits10_not_Nil: "digits10 n \<noteq> []"
  by (subst digits10.simps) simp

lemma digits10_inj: "digits10 m = digits10 n \<Longrightarrow> m = n"
  by (metis decimal_val_digits10)

lemma length_digits10: "0 < k \<Longrightarrow> n < 10 ^ k \<Longrightarrow> length (digits10 n) \<le> k"
proof (induction n arbitrary: k rule: digits10.induct)
  case (1 n)
  show ?case
  proof (cases "n < 10")
    case True
    with 1(2) show ?thesis
      by (simp add: digits10.simps [of n] Suc_leI)
  next
    case False
    obtain j where k: "k = Suc j"
      using 1(2) by (cases k) simp_all
    have "0 < j"
    proof (rule ccontr)
      assume "\<not> 0 < j"
      with k 1(3) False show False by simp
    qed
    moreover have "n div 10 < 10 ^ j"
      using 1(3) k by (simp add: less_mult_imp_div_less mult.commute)
    ultimately have "length (digits10 (n div 10)) \<le> j"
      using 1(1) False by simp
    with False k show ?thesis
      by (simp add: digits10.simps [of n])
  qed
qed

lemma not_is_digit_minus: "\<not> is_digit CHR ''-''"
  by (simp add: is_digit_def)

lemma hd_digits10_is_digit: "is_digit (hd (digits10 n))"
  using digits10_all_digits [of n] digits10_not_Nil [of n]
  by (cases "digits10 n") simp_all

lemma minus_Cons_neq_digits10: "CHR ''-'' # s \<noteq> digits10 n"
  using hd_digits10_is_digit [of n] not_is_digit_minus
  by (cases "digits10 n") auto

lemma FormatInt_inj:
  assumes "FormatInt a = FormatInt b"
  shows "a = b"
proof -
  have sa: "sint a = sint b"
  proof (cases "a <s 0")
    case True
    note a = this
    show ?thesis
    proof (cases "b <s 0")
      case True
      with a assms have "nat (- sint a) = nat (- sint b)"
        by (simp add: FormatInt_def digits10_inj)
      with a True show ?thesis by (simp add: word_sless_alt)
    next
      case False
      with a assms minus_Cons_neq_digits10 show ?thesis by (simp add: FormatInt_def)
    qed
  next
    case False
    note a = this
    show ?thesis
    proof (cases "b <s 0")
      case True
      with a assms minus_Cons_neq_digits10 [of "digits10 (nat (- sint b))" "nat (sint a)"]
      show ?thesis by (simp add: FormatInt_def)
    next
      case False
      with a assms have "nat (sint a) = nat (sint b)"
        by (simp add: FormatInt_def digits10_inj)
      with a False show ?thesis by (simp add: word_sless_alt)
    qed
  qed
  then show ?thesis by (rule signed_word_eqI)
qed

lemma ParseUint_FormatUint: "ParseUint (FormatUint u) = Some u"
proof -
  have "unat u < 2 ^ 64"
    using unsigned_less [of u, where 'a = nat] by simp
  then show ?thesis
    by (simp add: ParseUint_def FormatUint_def digits10_not_Nil digits10_all_digits
        decimal_val_digits10)
qed

lemma ParseInt_FormatInt: "ParseInt (FormatInt i) = Some i"
proof (cases "i <s 0")
  case True
  then have neg: "sint i < 0" by (simp add: word_sless_alt)
  define n where "n = nat (- sint i)"
  have n: "int n = - sint i" using neg by (simp add: n_def)
  have "- (2 ^ 63) \<le> sint i" by (rule sint_duration_bounds)
  then have nle: "n \<le> 2 ^ 63" by (simp add: n_def nat_le_iff)
  have "(- of_nat n :: 64 word) = word_of_int (- int n)"
    by simp
  also have "\<dots> = i" by (simp add: n)
  finally have wb: "(- of_nat n :: 64 word) = i" .
  have "FormatInt i = CHR ''-'' # digits10 n"
    using True by (simp add: FormatInt_def n_def)
  then show ?thesis
    using nle wb
    by (simp add: ParseInt_def Let_def digits10_not_Nil digits10_all_digits
        decimal_val_digits10)
next
  case False
  then have pos: "0 \<le> sint i" by (simp add: word_sless_alt)
  define n where "n = nat (sint i)"
  have n: "int n = sint i" using pos by (simp add: n_def)
  have "sint i \<le> 2 ^ 63 - 1" by (rule sint_duration_bounds)
  then have nlt: "n < 2 ^ 63" using pos by (simp add: n_def nat_less_iff)
  have "(of_nat n :: 64 word) = word_of_int (int n)"
    by simp
  also have "\<dots> = i" by (simp add: n)
  finally have wb: "(of_nat n :: 64 word) = i" .
  have fmt: "FormatInt i = digits10 n"
    using False by (simp add: FormatInt_def n_def)
  obtain c cs where ccs: "digits10 n = c # cs"
    using digits10_not_Nil [of n] by (cases "digits10 n") simp_all
  have cd: "is_digit c"
    using hd_digits10_is_digit [of n] ccs by simp
  then have c: "c \<noteq> CHR ''-''" "c \<noteq> CHR ''+''"
    by (auto simp: is_digit_def)
  have "list_all is_digit (digits10 n)" "decimal_val (digits10 n) = n"
    using digits10_all_digits [of n] decimal_val_digits10 [of n] by simp_all
  then have "list_all is_digit (c # cs)" "decimal_val (c # cs) = n"
    by (simp_all only: ccs)
  then show ?thesis
    using nlt wb c
    by (simp add: ParseInt_def Let_def fmt ccs)
qed

section \<open>Facts about the calendar\<close>

lemma div_bounds_int:
  fixes a b :: int
  assumes "0 < b"
  shows "b * (a div b) \<le> a" and "a < b * (a div b) + b"
proof -
  have "a = b * (a div b) + a mod b" by simp
  moreover have "0 \<le> a mod b" "a mod b < b"
    using assms by simp_all
  ultimately show "b * (a div b) \<le> a" and "a < b * (a div b) + b"
    by linarith+
qed

lemma mod_zero_iff_top:
  fixes x b :: int
  assumes "0 < x" and "x \<le> b"
  shows "x mod b = 0 \<longleftrightarrow> x = b"
proof (cases "x = b")
  case True
  then show ?thesis by simp
next
  case False
  with assms have "x mod b = x"
    by (simp add: mod_pos_pos_trivial)
  with assms False show ?thesis by simp
qed

lemma absYear_decomp:
  obtains n400 n100 n4 n1 yday where
    "absYear days = (400 * n400 + 100 * n100 + 4 * n4 + n1 + 1, yday)"
    "days = 146097 * n400 + 36524 * n100 + 1461 * n4 + 365 * n1 + yday"
    "0 \<le> n100" "n100 \<le> 3" "0 \<le> n4" "n4 \<le> 24" "0 \<le> n1" "n1 \<le> 3"
    "0 \<le> yday" "yday \<le> 365"
    "yday = 365 \<Longrightarrow> n1 = 3 \<and> (n4 \<noteq> 24 \<or> n100 = 3)"
proof -
  define n400 where "n400 = days div 146097"
  define d1 where "d1 = days - 146097 * n400"
  define n where "n = d1 div 36524"
  define n100 where "n100 = n - n div 4"
  define d2 where "d2 = d1 - 36524 * n100"
  define n4 where "n4 = d2 div 1461"
  define d3 where "d3 = d2 - 1461 * n4"
  define n' where "n' = d3 div 365"
  define n1 where "n1 = n' - n' div 4"
  define yday where "yday = d3 - 365 * n1"
  have d1: "0 \<le> d1" "d1 \<le> 146096"
    unfolding d1_def n400_def by arith+
  have n: "0 \<le> n" "n \<le> 4" "36524 * n \<le> d1" "d1 < 36524 * n + 36524"
    unfolding n_def using d1 by arith+
  have n100: "0 \<le> n100" "n100 \<le> 3" "n \<le> 3 \<Longrightarrow> n100 = n" "n = 4 \<Longrightarrow> n100 = 3"
    unfolding n100_def using n(1,2) by arith+
  have d2: "0 \<le> d2" "d2 \<le> 36524" "n100 < 3 \<Longrightarrow> d2 \<le> 36523"
    unfolding d2_def using d1 n n100 by arith+
  have n4: "0 \<le> n4" "n4 \<le> 24" "1461 * n4 \<le> d2" "d2 < 1461 * n4 + 1461"
    unfolding n4_def using d2(1,2) by arith+
  have d3: "0 \<le> d3" "d3 \<le> 1460" "n4 = 24 \<Longrightarrow> n100 < 3 \<Longrightarrow> d3 \<le> 1459"
    unfolding d3_def using n4 d2 by arith+
  have n': "0 \<le> n'" "n' \<le> 4" "365 * n' \<le> d3" "d3 < 365 * n' + 365"
    unfolding n'_def using d3(1,2) by arith+
  have n1: "0 \<le> n1" "n1 \<le> 3" "n' \<le> 3 \<Longrightarrow> n1 = n'" "n' = 4 \<Longrightarrow> n1 = 3"
    unfolding n1_def using n'(1,2) by arith+
  have yday: "0 \<le> yday" "yday \<le> 365" "yday = 365 \<Longrightarrow> n1 = 3 \<and> d3 = 1460"
    unfolding yday_def using n' n1 d3(1,2) by arith+
  have leap: "yday = 365 \<Longrightarrow> n1 = 3 \<and> (n4 \<noteq> 24 \<or> n100 = 3)"
    using yday(3) d3(3) n100(2) by fastforce
  have eq: "absYear days = (400 * n400 + 100 * n100 + 4 * n4 + n1 + 1, yday)"
    unfolding absYear_def Let_def
    by (simp only: n400_def [symmetric] d1_def [symmetric] n_def [symmetric]
        n100_def [symmetric] d2_def [symmetric] n4_def [symmetric] d3_def [symmetric]
        n'_def [symmetric] n1_def [symmetric] yday_def [symmetric])
  have days: "days = 146097 * n400 + 36524 * n100 + 1461 * n4 + 365 * n1 + yday"
    unfolding yday_def d3_def d2_def d1_def by simp
  show thesis
    using that [OF eq days n100(1,2) n4(1,2) n1(1,2) yday(1,2) leap] .
qed

lemma daysSinceEpoch_decomp:
  assumes "0 \<le> n100" "n100 \<le> 3" "0 \<le> n4" "n4 \<le> 24" "0 \<le> n1" "n1 \<le> (3::int)"
  shows "daysSinceEpoch (400 * n400 + 100 * n100 + 4 * n4 + n1 + 1)
         = 146097 * n400 + 36524 * n100 + 1461 * n4 + 365 * n1"
proof -
  define y where "y = 400 * n400 + 100 * n100 + 4 * n4 + n1"
  have a: "y div 400 = n400"
    by (rule int_div_pos_eq [where r = "100 * n100 + 4 * n4 + n1"])
      (use assms in \<open>simp_all add: y_def\<close>)
  have b: "(y - 400 * n400) div 100 = n100"
    by (rule int_div_pos_eq [where r = "4 * n4 + n1"]) (use assms in \<open>simp_all add: y_def\<close>)
  have c: "(y - 400 * n400 - 100 * n100) div 4 = n4"
    by (rule int_div_pos_eq [where r = "n1"]) (use assms in \<open>simp_all add: y_def\<close>)
  have "daysSinceEpoch (y + 1) = 146097 * n400 + 36524 * n100 + 1461 * n4 + 365 * n1"
    unfolding daysSinceEpoch_def Let_def
    by (simp add: a b c) (simp add: y_def)
  then show ?thesis by (simp add: y_def)
qed

lemma isLeap_decomp:
  assumes "0 \<le> n100" "n100 \<le> 3" "0 \<le> n4" "n4 \<le> 24" "0 \<le> n1" "n1 \<le> (3::int)"
  shows "isLeap (400 * n400 + 100 * n100 + 4 * n4 + n1 + 1)
         \<longleftrightarrow> n1 = 3 \<and> (n4 \<noteq> 24 \<or> n100 = 3)"
proof -
  define year where "year = 400 * n400 + 100 * n100 + 4 * n4 + n1 + 1"
  have "year = 4 * (100 * n400 + 25 * n100 + n4) + (n1 + 1)"
    by (simp add: year_def)
  then have "year mod 4 = (n1 + 1) mod 4"
    by (simp only: mod_mult_self4)
  moreover have "(n1 + 1) mod 4 = 0 \<longleftrightarrow> n1 + 1 = 4"
    by (rule mod_zero_iff_top) (use assms in simp_all)
  ultimately have m4: "year mod 4 = 0 \<longleftrightarrow> n1 = 3"
    by simp
  have "year = 100 * (4 * n400 + n100) + (4 * n4 + n1 + 1)"
    by (simp add: year_def)
  then have "year mod 100 = (4 * n4 + n1 + 1) mod 100"
    by (simp only: mod_mult_self4)
  moreover have "(4 * n4 + n1 + 1) mod 100 = 0 \<longleftrightarrow> 4 * n4 + n1 + 1 = 100"
    by (rule mod_zero_iff_top) (use assms in simp_all)
  ultimately have m100: "year mod 100 = 0 \<longleftrightarrow> 4 * n4 + n1 + 1 = 100"
    by simp
  have "year = 400 * n400 + (100 * n100 + 4 * n4 + n1 + 1)"
    by (simp add: year_def)
  then have "year mod 400 = (100 * n100 + 4 * n4 + n1 + 1) mod 400"
    by (simp only: mod_mult_self4)
  moreover have "(100 * n100 + 4 * n4 + n1 + 1) mod 400 = 0
      \<longleftrightarrow> 100 * n100 + 4 * n4 + n1 + 1 = 400"
    by (rule mod_zero_iff_top) (use assms in simp_all)
  ultimately have m400: "year mod 400 = 0 \<longleftrightarrow> 100 * n100 + 4 * n4 + n1 + 1 = 400"
    by simp
  have "isLeap year
      \<longleftrightarrow> n1 = 3 \<and> (4 * n4 + n1 + 1 \<noteq> 100 \<or> 100 * n100 + 4 * n4 + n1 + 1 = 400)"
    by (simp only: isLeap_def m4 m100 m400)
  also have "\<dots> \<longleftrightarrow> n1 = 3 \<and> (n4 \<noteq> 24 \<or> n100 = 3)"
    using assms by auto
  finally show ?thesis by (simp only: year_def)
qed

text \<open>
  The year and the day of the year determine the day number, and the day of the year
  fits the length of the year.
\<close>

lemma absYear_props:
  assumes "absYear days = (year, yday)"
  shows "daysSinceEpoch year + yday = days"
    and "0 \<le> yday"
    and "yday \<le> (if isLeap year then 365 else 364)"
proof -
  obtain n400 n100 n4 n1 yd where
    eq: "absYear days = (400 * n400 + 100 * n100 + 4 * n4 + n1 + 1, yd)"
    and days: "days = 146097 * n400 + 36524 * n100 + 1461 * n4 + 365 * n1 + yd"
    and b: "0 \<le> n100" "n100 \<le> 3" "0 \<le> n4" "n4 \<le> 24" "0 \<le> n1" "n1 \<le> 3"
    and yd: "0 \<le> yd" "yd \<le> 365"
    and leap: "yd = 365 \<Longrightarrow> n1 = 3 \<and> (n4 \<noteq> 24 \<or> n100 = 3)"
    by (rule absYear_decomp [of days]) blast
  from eq assms have year: "year = 400 * n400 + 100 * n100 + 4 * n4 + n1 + 1"
    and yday: "yday = yd" by simp_all
  show "daysSinceEpoch year + yday = days"
    unfolding year yday using daysSinceEpoch_decomp [OF b] days by simp
  show "0 \<le> yday" using yd yday by simp
  have "isLeap year \<longleftrightarrow> n1 = 3 \<and> (n4 \<noteq> 24 \<or> n100 = 3)"
    unfolding year by (rule isLeap_decomp [OF b])
  with leap yd(2) show "yday \<le> (if isLeap year then 365 else 364)"
    unfolding yday by (cases "yd = 365") auto
qed

lemma monthDay0_props:
  assumes "0 \<le> day" and "day \<le> 364"
  obtains month d where
    "monthDay0 day = (month, d)" "1 \<le> month" "month \<le> 12" "1 \<le> d" "d \<le> 31"
    "daysBefore ! nat (month - 1) + (d - 1) = day"
    "day < daysBefore ! nat month"
    "3 \<le> month \<longleftrightarrow> 59 \<le> day"
    "month = 2 \<Longrightarrow> d \<le> 28"
proof -
  define k where "k = day div 31"
  have kb: "31 * k \<le> day" "day < 31 * k + 31"
    unfolding k_def by (rule div_bounds_int, simp)+
  with assms have "0 \<le> k" "k \<le> 11" by linarith+
  then have "k = 0 \<or> k = 1 \<or> k = 2 \<or> k = 3 \<or> k = 4 \<or> k = 5 \<or> k = 6
    \<or> k = 7 \<or> k = 8 \<or> k = 9 \<or> k = 10 \<or> k = 11"
    by arith
  then have "\<exists>month d. monthDay0 day = (month, d) \<and> 1 \<le> month \<and> month \<le> 12 \<and> 1 \<le> d
      \<and> d \<le> 31
      \<and> daysBefore ! nat (month - 1) + (d - 1) = day
      \<and> day < daysBefore ! nat month
      \<and> (3 \<le> month \<longleftrightarrow> 59 \<le> day)
      \<and> (month = 2 \<longrightarrow> d \<le> 28)"
    using kb assms
    by (elim disjE) (simp_all add: monthDay0_def Let_def k_def [symmetric] daysBefore_def)
  then show thesis using that by blast
qed

lemma monthDay_props:
  assumes "0 \<le> yday" and "yday \<le> (if isLeap year then 365 else 364)"
    and "monthDay year yday = (month, day)"
  shows "1 \<le> month" and "month \<le> 12" and "1 \<le> day" and "day \<le> 31"
    and "day \<le> daysIn month year"
    and "daysBefore ! nat (month - 1) + (if isLeap year \<and> 3 \<le> month then 1 else 0)
           + (day - 1) = yday"
proof -
  have "1 \<le> month \<and> month \<le> 12 \<and> 1 \<le> day \<and> day \<le> 31 \<and> day \<le> daysIn month year
      \<and> daysBefore ! nat (month - 1) + (if isLeap year \<and> 3 \<le> month then 1 else 0)
           + (day - 1) = yday"
  proof (cases "isLeap year \<and> yday = 59")
    case True
    with assms(3) have "month = 2" "day = 29"
      by (simp_all add: monthDay_def)
    with True show ?thesis
      by (simp add: daysIn_def daysBefore_def)
  next
    case False
    define day0 where "day0 = (if isLeap year \<and> yday > 59 then yday - 1 else yday)"
    have d0: "0 \<le> day0" "day0 \<le> 364"
      using assms(1,2) by (auto simp: day0_def split: if_splits)
    have md: "monthDay0 day0 = (month, day)"
      using assms(3) False by (simp add: monthDay_def day0_def)
    obtain m d where p: "monthDay0 day0 = (m, d)" "1 \<le> m" "m \<le> 12" "1 \<le> d" "d \<le> 31"
      "daysBefore ! nat (m - 1) + (d - 1) = day0"
      "day0 < daysBefore ! nat m"
      "3 \<le> m \<longleftrightarrow> 59 \<le> day0"
      "m = 2 \<Longrightarrow> d \<le> 28"
      using monthDay0_props [OF d0] by blast
    from p(1) md have m: "m = month" and d: "d = day" by simp_all
    have din: "day \<le> daysIn month year"
    proof (cases "month = 2 \<and> isLeap year")
      case True
      with p(9) m d show ?thesis by (simp add: daysIn_def)
    next
      case False
      with p(6,7) m d show ?thesis by (auto simp: daysIn_def)
    qed
    have "(if isLeap year \<and> 3 \<le> month then 1 else 0) + day0 = yday"
      using False p(8) m by (auto simp: day0_def)
    with p(2-6) m d din show ?thesis by auto
  qed
  then show "1 \<le> month" and "month \<le> 12" and "1 \<le> day" and "day \<le> 31"
    and "day \<le> daysIn month year"
    and "daysBefore ! nat (month - 1) + (if isLeap year \<and> 3 \<le> month then 1 else 0)
           + (day - 1) = yday"
    by simp_all
qed

lemma date_roundtrip:
  assumes "absYear days = (year, yday)" and "monthDay year yday = (month, day)"
  shows "1 \<le> month" and "month \<le> 12" and "1 \<le> day" and "day \<le> 31"
    and "day \<le> daysIn month year"
    and "dateToDays year month day = days"
proof -
  note y = absYear_props [OF assms(1)]
  note m = monthDay_props [OF y(2,3) assms(2)]
  show "1 \<le> month" and "month \<le> 12" and "1 \<le> day" and "day \<le> 31"
    and "day \<le> daysIn month year"
    by (rule m)+
  show "dateToDays year month day = days"
    using y(1) m(6) by (simp add: dateToDays_def)
qed

section \<open>Facts about RFC 3339 timestamps\<close>

lemma is_digit_zero: "is_digit CHR ''0''"
  by (simp add: is_digit_def)

lemma digit_val_zero: "digit_val CHR ''0'' = 0"
  by (simp add: digit_val_def)

lemma decimal_val_zeros: "decimal_val (replicate k CHR ''0'') = 0"
proof (induction k)
  case 0
  then show ?case by (simp add: decimal_val_Nil)
next
  case (Suc k)
  have "replicate (Suc k) CHR ''0'' = replicate k CHR ''0'' @ [CHR ''0'']"
    by (simp add: replicate_append_same)
  then show ?case
    using Suc by (simp only: decimal_val_snoc digit_val_zero)
qed

lemma length_appendInt:
  assumes "0 < w" and "x < 10 ^ w"
  shows "length (appendInt x w) = w"
  using length_digits10 [OF assms] by (simp add: appendInt_def)

lemma appendInt_all_digits: "list_all is_digit (appendInt x w)"
  using digits10_all_digits [of x]
  by (auto simp: appendInt_def list_all_iff is_digit_zero)

lemma decimal_val_appendInt: "decimal_val (appendInt x w) = x"
  by (simp add: appendInt_def decimal_val_append decimal_val_zeros decimal_val_digits10)

lemma parseUint_appendInt:
  assumes "lo \<le> int x" and "int x \<le> hi"
  shows "parseUint (appendInt x w) lo hi = Some (int x)"
  using assms by (simp add: parseUint_def appendInt_all_digits decimal_val_appendInt)

text \<open>Removing the trailing zeros of a string of digits divides its value by a power of ten.\<close>

lemma strip_zeros_split:
  fixes s :: string
  defines "ds \<equiv> rev (dropWhile (\<lambda>c. c = CHR ''0'') (rev s))"
  shows "s = ds @ replicate (length s - length ds) CHR ''0''"
proof -
  define z where "z = takeWhile (\<lambda>c. c = CHR ''0'') (rev s)"
  have "\<forall>c \<in> set z. c = CHR ''0''"
    unfolding z_def by (auto dest: set_takeWhileD)
  then have z: "z = replicate (length z) CHR ''0''"
    by (simp add: replicate_length_same)
  have "rev s = z @ dropWhile (\<lambda>c. c = CHR ''0'') (rev s)"
    unfolding z_def by simp
  then have "rev (rev s) = rev (z @ dropWhile (\<lambda>c. c = CHR ''0'') (rev s))"
    by (rule arg_cong)
  then have s: "s = ds @ rev z"
    by (simp add: ds_def)
  then have "length s = length ds + length z"
    by (metis length_append length_rev)
  moreover have "rev z = replicate (length z) CHR ''0''"
    using z by (metis rev_replicate)
  ultimately show ?thesis using s by simp
qed

lemma not_is_digit_Z: "\<not> is_digit CHR ''Z''"
  by (simp add: is_digit_def)

lemma not_is_digit_dot: "\<not> is_digit CHR ''.''"
  by (simp add: is_digit_def)

lemma parseFraction_formatNano:
  assumes "n < 10 ^ 9"
  shows "parseFraction (formatNano n @ ''Z'') = (int n, ''Z'')"
proof (cases "n = 0")
  case True
  then show ?thesis
    by (simp add: formatNano_def parseFraction_def)
next
  case False
  define s where "s = appendInt n 9"
  define ds where "ds = rev (dropWhile (\<lambda>c. c = CHR ''0'') (rev s))"
  define k where "k = length s - length ds"
  have ls: "length s = 9"
    unfolding s_def using assms by (simp add: length_appendInt)
  have split: "s = ds @ replicate k CHR ''0''"
    unfolding ds_def k_def by (rule strip_zeros_split)
  then have len: "length ds + k = 9"
    using ls by (metis length_append length_replicate)
  have "decimal_val s = n"
    unfolding s_def by (rule decimal_val_appendInt)
  then have val: "decimal_val ds * 10 ^ k = n"
    by (subst (asm) split) (simp add: decimal_val_append decimal_val_zeros)
  have "list_all is_digit s"
    unfolding s_def by (rule appendInt_all_digits)
  then have dig: "list_all is_digit ds"
    by (subst (asm) split) simp
  have "ds \<noteq> []"
  proof
    assume "ds = []"
    with val have "n = 0" by (simp add: decimal_val_Nil)
    with False show False by simp
  qed
  then obtain c cs where ccs: "ds = c # cs"
    by (cases ds) simp_all
  have c: "is_digit c"
    using dig ccs by simp
  have tw: "takeWhile is_digit (ds @ ''Z'') = ds"
    using dig by (simp add: takeWhile_append2 list_all_iff not_is_digit_Z)
  have dw: "dropWhile is_digit (ds @ ''Z'') = ''Z''"
    using dig by (simp add: dropWhile_append2 list_all_iff not_is_digit_Z)
  have t9: "take 9 ds = ds"
    using len by simp
  have k9: "9 - length ds = k"
    using len by simp
  have "int n = int (decimal_val ds * 10 ^ k)"
    using val by simp
  then have pn: "parseNanoseconds ds = int n"
    by (simp add: parseNanoseconds_def t9 k9)
  have fmt: "formatNano n = CHR ''.'' # ds"
    using False by (simp add: formatNano_def ds_def s_def)
  have "parseFraction (CHR ''.'' # ds @ ''Z'')
      = (parseNanoseconds (takeWhile is_digit (ds @ ''Z'')),
         dropWhile is_digit (ds @ ''Z''))"
    unfolding ccs using c
    by (simp add: parseFraction_def del: takeWhile.simps dropWhile.simps)
  then have "parseFraction (CHR ''.'' # ds @ ''Z'') = (parseNanoseconds ds, ''Z'')"
    by (simp only: tw dw)
  then show ?thesis
    by (simp add: fmt pn)
qed

lemma parseZone_Z: "parseZone ''Z'' = Some 0"
  by (simp add: parseZone_def)

text \<open>The parser on a string whose six fields have their widths.\<close>

lemma parseRFC3339_fields:
  assumes "length Y = 4" "length M = 2" "length D = 2"
    "length H = 2" "length Mi = 2" "length S = 2"
  shows "parseRFC3339 (Y @ ''-'' @ M @ ''-'' @ D @ ''T'' @ H @ '':'' @ Mi @ '':'' @ S @ rest)
    = do {
        year \<leftarrow> parseUint Y 0 9999;
        month \<leftarrow> parseUint M 1 12;
        day \<leftarrow> parseUint D 1 (daysIn month year);
        hour \<leftarrow> parseUint H 0 23;
        minute \<leftarrow> parseUint Mi 0 59;
        sec \<leftarrow> parseUint S 0 59;
        offset \<leftarrow> parseZone (snd (parseFraction rest));
        Some (((dateToDays year month day - unixEpochDays) * 86400
                + hour * 3600 + minute * 60 + sec - offset) * 1000000000
              + fst (parseFraction rest))
      }"
proof -
  obtain y1 y2 y3 y4 where Y: "Y = [y1, y2, y3, y4]"
    using assms(1) by (auto simp: length_Suc_conv numeral_eq_Suc)
  obtain m1 m2 where M: "M = [m1, m2]"
    using assms(2) by (auto simp: length_Suc_conv numeral_eq_Suc)
  obtain d1 d2 where D: "D = [d1, d2]"
    using assms(3) by (auto simp: length_Suc_conv numeral_eq_Suc)
  obtain h1 h2 where H: "H = [h1, h2]"
    using assms(4) by (auto simp: length_Suc_conv numeral_eq_Suc)
  obtain i1 i2 where Mi: "Mi = [i1, i2]"
    using assms(5) by (auto simp: length_Suc_conv numeral_eq_Suc)
  obtain s1 s2 where S: "S = [s1, s2]"
    using assms(6) by (auto simp: length_Suc_conv numeral_eq_Suc)
  show ?thesis
    unfolding Y M D H Mi S
    by (simp add: parseRFC3339_def)
qed

lemma clock_fields:
  fixes rem :: int
  assumes "0 \<le> rem" and "rem < 86400"
  shows "0 \<le> rem div 3600" and "rem div 3600 \<le> 23"
    and "0 \<le> rem mod 3600 div 60" and "rem mod 3600 div 60 \<le> 59"
    and "0 \<le> rem mod 60" and "rem mod 60 \<le> 59"
    and "rem div 3600 * 3600 + rem mod 3600 div 60 * 60 + rem mod 60 = rem"
proof -
  define h where "h = rem div 3600"
  define r where "r = rem mod 3600"
  have r: "0 \<le> r" "r < 3600" by (simp_all add: r_def)
  have rem: "rem = 3600 * h + r" by (simp add: h_def r_def)
  have hb: "3600 * h \<le> rem" "rem < 3600 * h + 3600"
    unfolding h_def by (rule div_bounds_int, simp)+
  show "0 \<le> rem div 3600" and "rem div 3600 \<le> 23"
    using hb assms by (simp_all add: h_def [symmetric])
  define m where "m = r div 60"
  have mb: "60 * m \<le> r" "r < 60 * m + 60"
    unfolding m_def by (rule div_bounds_int, simp)+
  show "0 \<le> rem mod 3600 div 60" and "rem mod 3600 div 60 \<le> 59"
    using mb r by (simp_all add: r_def [symmetric] m_def [symmetric])
  show "0 \<le> rem mod 60" and "rem mod 60 \<le> 59"
    by simp_all
  have "r mod 60 = rem mod 60"
    unfolding r_def by (rule mod_mod_cancel) simp
  moreover have "r = 60 * (r div 60) + r mod 60"
    by simp
  ultimately have "r = 60 * m + rem mod 60"
    by (simp only: m_def)
  with rem show "rem div 3600 * 3600 + rem mod 3600 div 60 * 60 + rem mod 60 = rem"
    by (simp add: h_def [symmetric] r_def [symmetric] m_def [symmetric])
qed

lemma nat_less_power10:
  fixes x :: int
  assumes "0 \<le> x" and "x < 10 ^ w"
  shows "nat x < 10 ^ w"
  using assms by (simp add: nat_less_iff)

text \<open>
  A time whose year is within 0..9999 is read back from its RFC 3339 text to the
  nanosecond.
\<close>

lemma parseRFC3339_formatRFC3339Nano:
  assumes "0 \<le> Time_Year t" and "Time_Year t < 10000"
  shows "parseRFC3339 (formatRFC3339Nano t) = Some t"
proof -
  define sec where "sec = t div 1000000000"
  define nsec where "nsec = t mod 1000000000"
  define days where "days = sec div 86400 + unixEpochDays"
  define rem where "rem = sec mod 86400"
  define hh where "hh = rem div 3600"
  define mi where "mi = rem mod 3600 div 60"
  define ss where "ss = rem mod 60"
  obtain year yday where ay: "absYear days = (year, yday)"
    by (cases "absYear days")
  obtain month day where md: "monthDay year yday = (month, day)"
    by (cases "monthDay year yday")
  have "Time_Year t = year"
    by (simp add: Time_Year_def sec_def [symmetric] days_def [symmetric] ay)
  with assms have year: "0 \<le> year" "year \<le> 9999"
    by simp_all
  note dr = date_roundtrip [OF ay md]
  have rem: "0 \<le> rem" "rem < 86400"
    by (simp_all add: rem_def)
  note cf = clock_fields [OF rem, folded hh_def mi_def ss_def]
  have nsec: "0 \<le> nsec" "nsec < 1000000000"
    by (simp_all add: nsec_def)
  define Y where "Y = appendInt (nat year) 4"
  define M where "M = appendInt (nat month) 2"
  define D where "D = appendInt (nat day) 2"
  define H where "H = appendInt (nat hh) 2"
  define Mi where "Mi = appendInt (nat mi) 2"
  define S where "S = appendInt (nat ss) 2"
  define rest where "rest = formatNano (nat nsec) @ ''Z''"
  have fmt: "formatRFC3339Nano t
      = Y @ ''-'' @ M @ ''-'' @ D @ ''T'' @ H @ '':'' @ Mi @ '':'' @ S @ rest"
    unfolding formatRFC3339Nano_def Let_def
    by (simp only: sec_def [symmetric] nsec_def [symmetric] days_def [symmetric]
        rem_def [symmetric] hh_def [symmetric] mi_def [symmetric] ss_def [symmetric]
        ay md prod.case Y_def M_def D_def H_def Mi_def S_def rest_def append_assoc)
  have two: "length (appendInt (nat x) 2) = 2" if "0 \<le> x" "x \<le> 59" for x :: int
    by (rule length_appendInt) (use that in \<open>simp_all add: nat_less_iff\<close>)
  have "length Y = 4"
    unfolding Y_def by (rule length_appendInt) (use year in \<open>simp_all add: nat_less_iff\<close>)
  moreover have "length M = 2"
    unfolding M_def using dr(1,2) by (intro two) simp_all
  moreover have "length D = 2"
    unfolding D_def using dr(3,4) by (intro two) simp_all
  moreover have "length H = 2"
    unfolding H_def using cf(1,2) by (intro two) simp_all
  moreover have "length Mi = 2"
    unfolding Mi_def using cf(3,4) by (intro two) simp_all
  moreover have "length S = 2"
    unfolding S_def using cf(5,6) by (intro two) simp_all
  ultimately have fields: "parseRFC3339 (formatRFC3339Nano t)
    = do {
        year \<leftarrow> parseUint Y 0 9999;
        month \<leftarrow> parseUint M 1 12;
        day \<leftarrow> parseUint D 1 (daysIn month year);
        hour \<leftarrow> parseUint H 0 23;
        minute \<leftarrow> parseUint Mi 0 59;
        sec \<leftarrow> parseUint S 0 59;
        offset \<leftarrow> parseZone (snd (parseFraction rest));
        Some (((dateToDays year month day - unixEpochDays) * 86400
                + hour * 3600 + minute * 60 + sec - offset) * 1000000000
              + fst (parseFraction rest))
      }"
    unfolding fmt by (rule parseRFC3339_fields)
  have pu: "parseUint (appendInt (nat x) w) lo hi = Some x" if "lo \<le> x" "x \<le> hi" "0 \<le> x"
    for x lo hi :: int and w
    using parseUint_appendInt [of lo "nat x" hi w] that by simp
  have pY: "parseUint Y 0 9999 = Some year"
    unfolding Y_def using year by (intro pu) simp_all
  have pM: "parseUint M 1 12 = Some month"
    unfolding M_def using dr(1,2) by (intro pu) simp_all
  have pD: "parseUint D 1 (daysIn month year) = Some day"
    unfolding D_def using dr(3,5) by (intro pu) simp_all
  have pH: "parseUint H 0 23 = Some hh"
    unfolding H_def using cf(1,2) by (intro pu) simp_all
  have pMi: "parseUint Mi 0 59 = Some mi"
    unfolding Mi_def using cf(3,4) by (intro pu) simp_all
  have pS: "parseUint S 0 59 = Some ss"
    unfolding S_def using cf(5,6) by (intro pu) simp_all
  have "nat nsec < 10 ^ 9"
    using nsec by (simp add: nat_less_iff)
  then have "parseFraction rest = (int (nat nsec), ''Z'')"
    unfolding rest_def by (rule parseFraction_formatNano)
  then have pF: "parseFraction rest = (nsec, ''Z'')"
    using nsec by simp
  have "parseRFC3339 (formatRFC3339Nano t)
      = Some (((dateToDays year month day - unixEpochDays) * 86400
                + hh * 3600 + mi * 60 + ss - 0) * 1000000000 + nsec)"
    unfolding fields by (simp add: pY pM pD pH pMi pS pF parseZone_Z)
  also have "(dateToDays year month day - unixEpochDays) * 86400
                + hh * 3600 + mi * 60 + ss = sec"
  proof -
    have "sec = 86400 * (sec div 86400) + rem"
      by (simp add: rem_def)
    moreover have "dateToDays year month day - unixEpochDays = sec div 86400"
      using dr(6) by (simp add: days_def)
    ultimately show ?thesis
      using cf(7) by simp
  qed
  also have "(sec - 0) * 1000000000 + nsec = t"
    by (simp add: sec_def nsec_def)
  finally show ?thesis .
qed

lemma Time_MarshalJSON_roundtrip:
  assumes "Time_MarshalJSON t = Inr s"
  shows "parseRFC3339 s = Some t"
proof -
  from assms have "0 \<le> Time_Year t" "Time_Year t < 10000" "s = formatRFC3339Nano t"
    by (auto simp: Time_MarshalJSON_def split: if_splits)
  then show ?thesis
    by (simp add: parseRFC3339_formatRFC3339Nano)
qed

section \<open>The counter as JSON\<close>

lemma to_lower_keys:
  "map to_lower ''count'' = ''count''"
  "map to_lower ''start'' = ''start''"
  "map to_lower ''duration'' = ''duration''"
  by (simp_all add: to_lower_def)

lemma to_lower_letters:
  "to_lower CHR ''a'' = CHR ''a''" "to_lower CHR ''c'' = CHR ''c''"
  "to_lower CHR ''d'' = CHR ''d''" "to_lower CHR ''i'' = CHR ''i''"
  "to_lower CHR ''n'' = CHR ''n''" "to_lower CHR ''o'' = CHR ''o''"
  "to_lower CHR ''r'' = CHR ''r''" "to_lower CHR ''s'' = CHR ''s''"
  "to_lower CHR ''t'' = CHR ''t''" "to_lower CHR ''u'' = CHR ''u''"
  by (simp_all add: to_lower_def)

lemma decode_field_count:
  "decode_field ''count'' (JNumber (FormatUint n)) a = Some (a\<lparr>Count := n\<rparr>)"
  by (simp add: decode_field_def to_lower_letters ParseUint_FormatUint)

lemma decode_field_start:
  "Time_MarshalJSON t = Inr s \<Longrightarrow>
   decode_field ''start'' (JString s) a = Some (a\<lparr>Start := t\<rparr>)"
  by (simp add: decode_field_def to_lower_letters Time_MarshalJSON_roundtrip)

lemma decode_field_duration:
  "decode_field ''duration'' (JNumber (FormatInt d)) a = Some (a\<lparr>Duration := d\<rparr>)"
  by (simp add: decode_field_def to_lower_letters ParseInt_FormatInt)

lemma json_Marshal_Inr:
  assumes "json_Marshal v = Inr b"
  obtains s where "Time_MarshalJSON (Start v) = Inr s"
    and "b = Some (JObject
            [(''count'', JNumber (FormatUint (Count v))),
             (''start'', JString s),
             (''duration'', JNumber (FormatInt (Duration v)))])"
  using assms by (auto simp: json_Marshal_def split: sum.splits)

text \<open>What \<^verbatim>\<open>json.Marshal\<close> writes, \<^verbatim>\<open>accessCountFromBytes\<close> reads back.\<close>

lemma accessCountFromBytes_json_Marshal:
  assumes "json_Marshal v = Inr b"
  shows "accessCountFromBytes b = Inr v"
proof -
  obtain s where s: "Time_MarshalJSON (Start v) = Inr s"
    and b: "b = Some (JObject
            [(''count'', JNumber (FormatUint (Count v))),
             (''start'', JString s),
             (''duration'', JNumber (FormatInt (Duration v)))])"
    using assms by (rule json_Marshal_Inr)
  have "decode_fields
      [(''count'', JNumber (FormatUint (Count v))),
       (''start'', JString s),
       (''duration'', JNumber (FormatInt (Duration v)))] zero_accessCount
    = Some (zero_accessCount\<lparr>Count := Count v, Start := Start v, Duration := Duration v\<rparr>)"
    by (simp add: decode_field_count decode_field_start [OF s] decode_field_duration)
  also have "zero_accessCount\<lparr>Count := Count v, Start := Start v, Duration := Duration v\<rparr> = v"
    by simp
  finally show ?thesis
    by (simp add: accessCountFromBytes_def json_Decode_def b)
qed

lemma json_Marshal_succeeds:
  assumes "0 \<le> Time_Year (Start v)" and "Time_Year (Start v) < 10000"
  shows "\<exists>b. json_Marshal v = Inr b"
  using assms by (simp add: json_Marshal_def Time_MarshalJSON_def)

section \<open>Concrete times\<close>

lemma Time_Year_epoch: "Time_Year 0 = 1970"
  by code_simp

lemma Time_Year_10000: "Time_Year 253402300800000000000 = 10000"
  by code_simp

section \<open>Reading and writing the store\<close>

lemma MapStore_Get_Some:
  "map_of (data s) key = Some b \<Longrightarrow> MapStore_Get s key = Inr b"
  by (simp add: MapStore_Get_def)

lemma MapStore_Get_None:
  "map_of (data s) key = None \<Longrightarrow> \<exists>err. MapStore_Get s key = Inl err"
  by (simp add: MapStore_Get_def)

lemma GetAccessCount_stored:
  assumes "map_of (data (store c)) key = Some b"
  shows "GetAccessCount c now key = accessCountFromBytes b"
  using assms by (simp add: GetAccessCount_def MapStore_Get_def)

lemma GetAccessCount_missing:
  assumes "map_of (data (store c)) key = None"
  shows "GetAccessCount c now key = Inr (newAccessCount now (Within (quota c)))"
  using assms by (simp add: GetAccessCount_def MapStore_Get_def)

text \<open>A successful \<^verbatim>\<open>SetAccessCount\<close> stores a payload that decodes to the counter.\<close>

lemma SetAccessCount_stores:
  assumes "0 \<le> Time_Year (Start a)" and "Time_Year (Start a) < 10000"
  shows "\<exists>c' b. SetAccessCount c key a = Inr c' \<and> quota c' = quota c
      \<and> map_of (data (store c')) key = Some b \<and> accessCountFromBytes b = Inr a"
proof -
  obtain b where b: "json_Marshal a = Inr b"
    using json_Marshal_succeeds [OF assms] by blast
  have "accessCountFromBytes b = Inr a"
    using b by (rule accessCountFromBytes_json_Marshal)
  then show ?thesis
    by (simp add: SetAccessCount_def b MapStore_Set_def update_conv')
qed

section \<open>The store round trip\<close>

text \<open>
  C7, as stated, fails: the counter whose window starts on 1 January of year 10000 (UTC)
  has no serialization. \<^verbatim>\<open>json.Marshal\<close> returns an error for it, and
  \<^verbatim>\<open>SetAccessCount\<close> panics instead of storing it.
\<close>

theorem json_Marshal_year_10000:
  "json_Marshal \<lparr>Count = 1, Start = 253402300800000000000, Duration = 1000000000\<rparr>
     = Inl MarshalError
   \<and> SetAccessCount (newController \<lparr>Limit = 1, Within = 1000000000\<rparr> (NewMapStore zero_accessCount))
        ''k'' \<lparr>Count = 1, Start = 253402300800000000000, Duration = 1000000000\<rparr>
     = Inl MarshalError"
  by (simp add: SetAccessCount_def json_Marshal_def Time_MarshalJSON_def Time_Year_10000)

text \<open>
  C7, amended. For every counter whose window start lies in the years 0 to 9999 (UTC),
  the serialization exists, and deserializing it gives back the counter: the same count,
  the same window start to the nanosecond, and the same window duration.
\<close>

theorem accessCount_roundtrip:
  assumes "0 \<le> Time_Year (Start v)" and "Time_Year (Start v) < 10000"
  shows "\<exists>b v'. json_Marshal v = Inr b \<and> accessCountFromBytes b = Inr v'
      \<and> Count v' = Count v \<and> Start v' = Start v \<and> Duration v' = Duration v"
proof -
  obtain b where b: "json_Marshal v = Inr b"
    using json_Marshal_succeeds [OF assms] by blast
  then have "accessCountFromBytes b = Inr v"
    by (rule accessCountFromBytes_json_Marshal)
  with b show ?thesis by blast
qed

theorem accessCount_roundtrip_witness:
  "0 \<le> Time_Year 0 \<and> Time_Year 0 < 10000
   \<and> (\<exists>b v'. json_Marshal \<lparr>Count = 3, Start = 0, Duration = 1000000000\<rparr> = Inr b
        \<and> accessCountFromBytes b = Inr v'
        \<and> Count v' = 3 \<and> Start v' = 0 \<and> Duration v' = 1000000000)"
  using accessCount_roundtrip [of "\<lparr>Count = 3, Start = 0, Duration = 1000000000\<rparr>"]
  by (simp add: Time_Year_epoch)

section \<open>The controller's queries\<close>

text \<open>
  C6. For an identity with no stored record, \<^verbatim>\<open>GetAccessCount\<close> returns a counter with
  count 0, window start now and the quota's window as duration; the result is a value,
  not an error.
\<close>

theorem GetAccessCount_miss:
  assumes "map_of (data (store c)) key = None"
  shows "GetAccessCount c now key
         = Inr \<lparr>Count = 0, Start = now, Duration = Within (quota c)\<rparr>"
  using assms by (simp add: GetAccessCount_missing newAccessCount_def)

theorem GetAccessCount_miss_witness:
  "map_of (data (store (newController \<lparr>Limit = 5, Within = 1000000000\<rparr>
      (NewMapStore zero_accessCount)))) ''throttle_200000000_1.2.3.4'' = None
   \<and> GetAccessCount (newController \<lparr>Limit = 5, Within = 1000000000\<rparr>
        (NewMapStore zero_accessCount)) 42 ''throttle_200000000_1.2.3.4''
       = Inr \<lparr>Count = 0, Start = 42, Duration = 1000000000\<rparr>"
proof -
  let ?c = "newController \<lparr>Limit = 5, Within = 1000000000\<rparr> (NewMapStore zero_accessCount)"
  have e: "map_of (data (store ?c)) ''throttle_200000000_1.2.3.4'' = None"
    by (simp add: newController_def NewMapStore_def)
  show ?thesis
    using GetAccessCount_miss [OF e, of 42] e by (simp add: newController_def)
qed

text \<open>
  C10. When the counter read for an identity is fresh and its count is greater than the
  limit, \<^verbatim>\<open>RemainingLimit\<close> returns limit - count in \<^verbatim>\<open>uint64\<close> arithmetic: the
  difference reduced modulo \<open>2 ^ 64\<close>, which lies below \<open>2 ^ 64\<close> by exactly the excess
  count - limit. It is not zero, and it is greater than the limit itself.
\<close>

theorem RemainingLimit_wraps:
  assumes "GetAccessCount c now key = Inr a"
    and "IsFresh now a"
    and "Limit (quota c) < Count a"
  shows "RemainingLimit c now key = Inr (Limit (quota c) - Count a)
       \<and> uint (Limit (quota c) - Count a)
           = (uint (Limit (quota c)) - uint (Count a)) mod 2 ^ 64
       \<and> unat (Limit (quota c) - Count a)
           = 2 ^ 64 - (unat (Count a) - unat (Limit (quota c)))
       \<and> Limit (quota c) - Count a \<noteq> 0
       \<and> Limit (quota c) < Limit (quota c) - Count a"
proof -
  define L where "L = Limit (quota c)"
  define C where "C = Count a"
  have lt: "unat L < unat C"
    using assms(3) by (simp add: L_def C_def word_less_nat_alt)
  have Cb: "unat C < 2 ^ 64"
    using unsigned_less [of C, where 'a = nat] by simp
  have r: "RemainingLimit c now key = Inr (L - C)"
    using assms(1,2) by (simp add: RemainingLimit_def GetCount_def L_def C_def)
  have u: "uint (L - C) = (uint L - uint C) mod 2 ^ 64"
    by (simp add: uint_word_ariths)
  have "unat (L - C) = unat L + 2 ^ 64 - unat C"
    using lt by (simp add: unat_sub_if_size word_size)
  then have n: "unat (L - C) = 2 ^ 64 - (unat C - unat L)"
    using lt Cb by linarith
  have nz: "L - C \<noteq> 0"
    using lt by auto
  have "unat L < unat (L - C)"
    using n lt Cb by linarith
  then have gt: "L < L - C"
    by (simp add: word_less_nat_alt)
  show ?thesis
    using r u n nz gt by (simp add: L_def C_def)
qed

theorem RemainingLimit_wraps_witness:
  "\<exists>c. SetAccessCount
          (newController \<lparr>Limit = 3, Within = 1000000000\<rparr> (NewMapStore zero_accessCount))
          ''k'' \<lparr>Count = 5, Start = 0, Duration = 1000000000\<rparr> = Inr c
      \<and> GetAccessCount c 5 ''k'' = Inr \<lparr>Count = 5, Start = 0, Duration = 1000000000\<rparr>
      \<and> IsFresh 5 \<lparr>Count = 5, Start = 0, Duration = 1000000000\<rparr>
      \<and> Limit (quota c) < 5
      \<and> RemainingLimit c 5 ''k'' = Inr 18446744073709551614"
proof -
  let ?c0 = "newController \<lparr>Limit = 3, Within = 1000000000\<rparr> (NewMapStore zero_accessCount)"
  let ?a = "\<lparr>Count = 5, Start = 0, Duration = 1000000000\<rparr> :: accessCount"
  have y: "0 \<le> Time_Year (Start ?a)" "Time_Year (Start ?a) < 10000"
    by (simp_all add: Time_Year_epoch)
  obtain c b where c: "SetAccessCount ?c0 ''k'' ?a = Inr c" and q: "quota c = quota ?c0"
    and m: "map_of (data (store c)) ''k'' = Some b" and d: "accessCountFromBytes b = Inr ?a"
    using SetAccessCount_stores [OF y, of ?c0 "''k''"] by blast
  have g: "GetAccessCount c 5 ''k'' = Inr ?a"
    using GetAccessCount_stored [OF m, of 5] d by simp
  have f: "IsFresh 5 ?a"
    by (simp add: IsFresh_iff)
  have l: "Limit (quota c) = 3"
    by (simp add: q newController_def)
  then have lt: "Limit (quota c) < Count ?a"
    by simp
  have "RemainingLimit c 5 ''k'' = Inr 18446744073709551614"
    using RemainingLimit_wraps [OF g f lt] by (simp add: l)
  with c g f l show ?thesis by auto
qed

section \<open>The access counter\<close>

text \<open>
  C5. For a counter whose window duration is positive, \<^verbatim>\<open>Increment\<close> adds one to the
  count (in \<^verbatim>\<open>uint64\<close> arithmetic) and keeps the window start and duration when the
  counter is fresh; it sets the count to 1 and the window start to the current time,
  keeping the duration, when the counter is stale. In both cases the counter is fresh
  right after the call.
\<close>

theorem Increment_fresh_or_reset:
  assumes "0 <s Duration r"
  shows "(IsFresh now r \<longrightarrow>
            Count (Increment now r) = Count r + 1
          \<and> Start (Increment now r) = Start r
          \<and> Duration (Increment now r) = Duration r)
       \<and> (\<not> IsFresh now r \<longrightarrow>
            Count (Increment now r) = 1
          \<and> Start (Increment now r) = now
          \<and> Duration (Increment now r) = Duration r)
       \<and> IsFresh now (Increment now r)"
proof (cases "IsFresh now r")
  case True
  then have "Increment now r = r\<lparr>Count := Count r + 1\<rparr>"
    by (simp add: Increment_def)
  moreover from True have "IsFresh now (r\<lparr>Count := Count r + 1\<rparr>)"
    by (simp add: IsFresh_def)
  ultimately show ?thesis using True by simp
next
  case False
  then have inc: "Increment now r = r\<lparr>Count := 1, Start := now\<rparr>"
    by (simp add: Increment_def)
  have "IsFresh (Start (r\<lparr>Count := 1, Start := now\<rparr>)) (r\<lparr>Count := 1, Start := now\<rparr>)"
    by (rule IsFresh_at_Start) (simp add: assms)
  then have "IsFresh now (r\<lparr>Count := 1, Start := now\<rparr>)"
    by simp
  with inc False show ?thesis by simp
qed

theorem Increment_fresh_or_reset_witness:
  "(0::64 word) <s 5
   \<and> IsFresh 12 \<lparr>Count = 3, Start = 10, Duration = 5\<rparr>
   \<and> Count (Increment 12 \<lparr>Count = 3, Start = 10, Duration = 5\<rparr>) = 4
   \<and> Start (Increment 12 \<lparr>Count = 3, Start = 10, Duration = 5\<rparr>) = 10
   \<and> \<not> IsFresh 15 \<lparr>Count = 3, Start = 10, Duration = 5\<rparr>
   \<and> Count (Increment 15 \<lparr>Count = 3, Start = 10, Duration = 5\<rparr>) = 1
   \<and> Start (Increment 15 \<lparr>Count = 3, Start = 10, Duration = 5\<rparr>) = 15
   \<and> IsFresh 15 (Increment 15 \<lparr>Count = 3, Start = 10, Duration = 5\<rparr>)"
proof -
  let ?r = "\<lparr>Count = 3, Start = 10, Duration = 5\<rparr> :: accessCount"
  have pos: "0 <s Duration ?r" by (simp add: word_sless_alt)
  have fresh: "IsFresh 12 ?r"
    by (simp add: IsFresh_iff)
  have stale: "\<not> IsFresh 15 ?r"
    by (simp add: IsFresh_iff)
  show ?thesis
    using Increment_fresh_or_reset [OF pos, of 12] Increment_fresh_or_reset [OF pos, of 15]
      fresh stale
    by (simp add: word_sless_alt)
qed

text \<open>
  C9. \<^verbatim>\<open>GetCount\<close> returns the stored count when the counter is fresh and 0 when it is
  stale, and in both cases the receiver is left as it was: count, window start and
  window duration are unchanged.
\<close>

theorem GetCount_fresh_or_zero:
  "fst (GetCount now r) = (if IsFresh now r then Count r else 0)
   \<and> Count (snd (GetCount now r)) = Count r
   \<and> Start (snd (GetCount now r)) = Start r
   \<and> Duration (snd (GetCount now r)) = Duration r"
  by (simp add: GetCount_def)

theorem GetCount_fresh_or_zero_witness:
  "fst (GetCount 12 \<lparr>Count = 3, Start = 10, Duration = 5\<rparr>) = 3
   \<and> fst (GetCount 15 \<lparr>Count = 3, Start = 10, Duration = 5\<rparr>) = 0
   \<and> snd (GetCount 15 \<lparr>Count = 3, Start = 10, Duration = 5\<rparr>)
       = \<lparr>Count = 3, Start = 10, Duration = 5\<rparr>"
proof -
  let ?r = "\<lparr>Count = 3, Start = 10, Duration = 5\<rparr> :: accessCount"
  have fresh: "IsFresh 12 ?r"
    by (simp add: IsFresh_iff)
  have stale: "\<not> IsFresh 15 ?r"
    by (simp add: IsFresh_iff)
  show ?thesis
    using GetCount_fresh_or_zero [of 12 ?r] GetCount_fresh_or_zero [of 15 ?r] fresh stale
    by simp
qed

section \<open>Key ids\<close>

lemma KeyId_eq_iff:
  assumes "Limit q1 \<noteq> 0" and "Limit q2 \<noteq> 0"
  shows "KeyId q1 = KeyId q2 \<longleftrightarrow>
         int64_div (Within q1) (Limit q1) = int64_div (Within q2) (Limit q2)"
  using assms by (auto simp: KeyId_def dest: FormatInt_inj)

lemma makeKey3_eq_iff:
  "makeKey [p, k1, i] = makeKey [p, k2, i] \<longleftrightarrow> k1 = k2"
  by (simp add: makeKey_def)

text \<open>
  C3. The claim is that distinct quotas sharing a store get different key ids, so that
  two policies never use the same entry for one identity. The code does not achieve it:
  the quotas 1 per second and 60 per minute are distinct, both have a positive limit and
  a positive window, and both get the key id \<open>1000000000\<close>, so that with one prefix
  and one identity both policies read and write the same store key.
\<close>

theorem KeyId_collision:
  "\<lparr>Limit = 1, Within = 1000000000\<rparr> \<noteq> \<lparr>Limit = 60, Within = 60000000000\<rparr>
   \<and> (0::64 word) < 1 \<and> (0::64 word) <s 1000000000
   \<and> (0::64 word) < 60 \<and> (0::64 word) <s 60000000000
   \<and> KeyId \<lparr>Limit = 1, Within = 1000000000\<rparr> = Inr ''1000000000''
   \<and> KeyId \<lparr>Limit = 60, Within = 60000000000\<rparr> = Inr ''1000000000''
   \<and> Policy_key ''throttle'' \<lparr>Limit = 1, Within = 1000000000\<rparr> ''1.2.3.4''
       = Inr ''throttle_1000000000_1.2.3.4''
   \<and> Policy_key ''throttle'' \<lparr>Limit = 60, Within = 60000000000\<rparr> ''1.2.3.4''
       = Inr ''throttle_1000000000_1.2.3.4''"
  by (simp add: KeyId_def Policy_key_def makeKey_def FormatInt_def int64_div_def
      word_sless_alt digits10.simps digit_char_def)

end
